theory Spec2Isabelle
  imports Complex_Main "HOL-Library.Signed_Division"
begin

section \<open>Go values\<close>

text \<open>
  The program is Go. Its \<^verbatim>\<open>int\<close> is the 64-bit two's complement integer of the
  usual platforms; it is modelled as an \<^typ>\<open>int\<close> that every arithmetic operation
  brings back into the range by \<open>wrap64\<close>. \<^verbatim>\<open>/\<close> and \<^verbatim>\<open>%\<close> truncate towards zero
  (\<open>sdiv\<close>, \<open>smod\<close>), unlike HOL's \<open>div\<close> and \<open>mod\<close>. A Go string is a
  sequence of bytes and \<^verbatim>\<open>len\<close> counts bytes, as \<^typ>\<open>string\<close> and \<open>length\<close> do.
\<close>

definition minInt :: int where
  "minInt = - (2 ^ 63)"

definition maxInt :: int where
  "maxInt = 2 ^ 63 - 1"

definition is_int64 :: "int \<Rightarrow> bool" where
  "is_int64 x \<longleftrightarrow> minInt \<le> x \<and> x \<le> maxInt"

definition wrap64 :: "int \<Rightarrow> int" where
  "wrap64 x = (x + 2 ^ 63) mod 2 ^ 64 - 2 ^ 63"

definition go_add :: "int \<Rightarrow> int \<Rightarrow> int" where
  "go_add a b = wrap64 (a + b)"

definition go_sub :: "int \<Rightarrow> int \<Rightarrow> int" where
  "go_sub a b = wrap64 (a - b)"


text \<open>Every run-time panic the modelled code can raise.\<close>

datatype panic = NilDereference | IndexOutOfRange | SliceBoundsOutOfRange | DivideByZero


definition go_rem :: "int \<Rightarrow> int \<Rightarrow> panic + int" where
  "go_rem a b = (if b = 0 then Inl DivideByZero else Inr (wrap64 (a smod b)))"

text \<open>\<^verbatim>\<open>len(x)\<close> of a string or a slice.\<close>

definition len :: "'a list \<Rightarrow> int" where
  "len xs = int (length xs)"

text \<open>The index expression \<^verbatim>\<open>xs[i]\<close> on a slice: out of range is a panic.\<close>

definition go_index :: "'a list \<Rightarrow> int \<Rightarrow> panic + 'a" where
  "go_index xs i = (if 0 \<le> i \<and> i < len xs then Inr (xs ! nat i) else Inl IndexOutOfRange)"

text \<open>Sequencing of steps that may panic: the first panic ends the run.\<close>

definition and_then :: "panic + 'a \<Rightarrow> ('a \<Rightarrow> panic + 'b) \<Rightarrow> panic + 'b" where
  "and_then m f = (case m of Inl e \<Rightarrow> Inl e | Inr x \<Rightarrow> f x)"

section \<open>structs.Page\<close>

datatype PageMode = ModeOff | ModeLinkSelect | ModeSearch

text \<open>
  The struct \<^verbatim>\<open>Page\<close>, field by field. \<^verbatim>\<open>Mediatype\<close> is a named string type;
  \<^verbatim>\<open>MadeAt\<close> (a \<^verbatim>\<open>time.Time\<close>) is kept as a number of nanoseconds, zero being
  the zero value.
\<close>

record Page =
  URL :: string
  Mediatype :: string
  RawMediatype :: string
  Raw :: string
  Content :: string
  MaxPreCols :: int
  Links :: "string list"
  Row :: int
  Column :: int
  TermWidth :: int
  Selected :: string
  SelectedID :: string
  Mode :: PageMode
  Favicon :: string
  MadeAt :: int

text \<open>The zero value \<^verbatim>\<open>structs.Page{}\<close>.\<close>

definition zeroPage :: Page where
  "zeroPage = \<lparr>URL = [], Mediatype = [], RawMediatype = [], Raw = [], Content = [],
     MaxPreCols = 0, Links = [], Row = 0, Column = 0, TermWidth = 0, Selected = [],
     SelectedID = [], Mode = ModeOff, Favicon = [], MadeAt = 0\<rparr>"

text \<open>
  \<^verbatim>\<open>func (p *Page) Size() int\<close>, for a receiver that is not nil. The loop
  \<^verbatim>\<open>for i := range p.Links { n += len(p.Links[i]) }\<close> is \<open>Size_loop\<close>, with \<open>n\<close>
  as its accumulator.
\<close>

fun Size_loop :: "string list \<Rightarrow> int \<Rightarrow> int" where
  "Size_loop [] n = n"
| "Size_loop (l # ls) n = Size_loop ls (go_add n (len l))"

definition Size :: "Page \<Rightarrow> int" where
  "Size p =
     Size_loop (Links p)
       (go_add (go_add (go_add (go_add (len (Raw p)) (len (Content p))) (len (URL p)))
          (len (Selected p))) (len (SelectedID p)))"

text \<open>The sum of the byte lengths the size is meant to be, as a number.\<close>

definition byte_total :: "Page \<Rightarrow> int" where
  "byte_total p =
     int (length (Raw p)) + int (length (Content p)) + int (length (URL p))
     + int (length (Selected p)) + int (length (SelectedID p))
     + (\<Sum>l\<leftarrow>Links p. int (length l))"

section \<open>strconv\<close>

text \<open>
  \<^verbatim>\<open>strconv.Atoi\<close> and \<^verbatim>\<open>strconv.Itoa\<close> of Go's standard library, for base 10 and
  64 bits. \<open>Atoi s\<close> is \<^verbatim>\<open>ParseInt(s, 10, 0)\<close> (its fast path for short strings
  returns the same pairs): an optional sign, then \<^verbatim>\<open>ParseUint\<close> on the rest. A
  syntax error returns 0; a value out of range returns the largest magnitude of its
  sign. The pair is the value and the error, \<open>None\<close> for \<^verbatim>\<open>nil\<close>.
\<close>

datatype NumError = ErrSyntax | ErrRange

definition is_digit :: "char \<Rightarrow> bool" where
  "is_digit c \<longleftrightarrow> 48 \<le> (of_char c :: nat) \<and> (of_char c :: nat) \<le> 57"

definition digit_val :: "char \<Rightarrow> nat" where
  "digit_val c = of_char c - 48"

definition maxUint64 :: nat where
  "maxUint64 = 2 ^ 64 - 1"

definition cutoff10 :: nat where
  "cutoff10 = maxUint64 div 10 + 1"

text \<open>
  The loop of \<^verbatim>\<open>ParseUint\<close> over the bytes of the string, \<open>n\<close> the \<^verbatim>\<open>uint64\<close>
  read so far: \<^verbatim>\<open>n >= cutoff\<close> means \<^verbatim>\<open>n*base\<close> overflows, \<^verbatim>\<open>n1 < n\<close> that the
  addition wrapped around.
\<close>

fun ParseUint_loop :: "nat \<Rightarrow> string \<Rightarrow> nat \<times> NumError option" where
  "ParseUint_loop n [] = (n, None)"
| "ParseUint_loop n (c # cs) =
     (if \<not> is_digit c then (0, Some ErrSyntax)
      else if cutoff10 \<le> n then (maxUint64, Some ErrRange)
      else
        let n10 = n * 10;
            n1 = (n10 + digit_val c) mod 2 ^ 64
        in if n1 < n10 \<or> maxUint64 < n1 then (maxUint64, Some ErrRange)
           else ParseUint_loop n1 cs)"

definition ParseUint :: "string \<Rightarrow> nat \<times> NumError option" where
  "ParseUint s = (if s = [] then (0, Some ErrSyntax) else ParseUint_loop 0 s)"

definition ParseInt :: "string \<Rightarrow> int \<times> NumError option" where
  "ParseInt s =
     (if s = [] then (0, Some ErrSyntax)
      else
        let neg = (hd s = CHR ''-'');
            rest = (if hd s = CHR ''+'' \<or> hd s = CHR ''-'' then tl s else s)
        in case ParseUint rest of
             (un, err) \<Rightarrow>
               if err = Some ErrSyntax then (0, err)
               else if \<not> neg \<and> 2 ^ 63 \<le> un then (2 ^ 63 - 1, Some ErrRange)
               else if neg \<and> 2 ^ 63 < un then (- (2 ^ 63), Some ErrRange)
               else (if neg then - int un else int un, None))"

definition Atoi :: "string \<Rightarrow> int \<times> NumError option" where
  "Atoi s = ParseInt s"

text \<open>
  \<^verbatim>\<open>Itoa(i)\<close>: the decimal digits of \<open>i\<close>, after a minus sign when it is negative.
  \<open>digits\<close> is the table the library takes each digit from.
\<close>

definition digits :: string where
  "digits = ''0123456789''"

fun formatDecimal :: "nat \<Rightarrow> string" where
  "formatDecimal n =
     (if n < 10 then [digits ! n]
      else formatDecimal (n div 10) @ [digits ! (n mod 10)])"

declare formatDecimal.simps [simp del]

definition Itoa :: "int \<Rightarrow> string" where
  "Itoa i = (if i < 0 then CHR ''-'' # formatDecimal (nat (- i)) else formatDecimal (nat i))"

text \<open>\<^verbatim>\<open>strings.HasPrefix(s, prefix)\<close>.\<close>

definition HasPrefix :: "string \<Rightarrow> string \<Rightarrow> bool" where
  "HasPrefix s prefix \<longleftrightarrow> length prefix \<le> length s \<and> take (length prefix) s = prefix"

section \<open>The widgets\<close>

text \<open>
  What the tab uses of \<^verbatim>\<open>cview.TextView\<close>: the scroll offset that
  \<^verbatim>\<open>GetScrollOffset\<close> returns and \<^verbatim>\<open>ScrollTo\<close> sets (the view is scrollable, as
  \<^verbatim>\<open>makeNewTab\<close> configures it), the highlighted region ids, and the request to
  scroll the highlight into view at the next draw. \<^verbatim>\<open>Highlight\<close> replaces the
  highlighted ids by the ones it is given, skipping an empty id.
\<close>

record TextView =
  lineOffset :: int
  columnOffset :: int
  highlights :: "string list"
  scrollToHighlights :: bool

definition NewTextView :: TextView where
  "NewTextView = \<lparr>lineOffset = 0, columnOffset = 0, highlights = [], scrollToHighlights = False\<rparr>"

definition GetScrollOffset :: "TextView \<Rightarrow> int \<times> int" where
  "GetScrollOffset v = (lineOffset v, columnOffset v)"

definition ScrollTo :: "int \<Rightarrow> int \<Rightarrow> TextView \<Rightarrow> TextView" where
  "ScrollTo row column v = v\<lparr>lineOffset := row, columnOffset := column\<rparr>"

definition Highlight :: "string \<Rightarrow> TextView \<Rightarrow> TextView" where
  "Highlight regionID v = v\<lparr>highlights := (if regionID = [] then [] else [regionID])\<rparr>"

definition GetHighlights :: "TextView \<Rightarrow> string list" where
  "GetHighlights v = highlights v"

definition ScrollToHighlight :: "TextView \<Rightarrow> TextView" where
  "ScrollToHighlight v = v\<lparr>scrollToHighlights := True\<rparr>"

text \<open>The status bar, a \<^verbatim>\<open>cview.InputField\<close>: its label and its text.\<close>

record InputField =
  fieldLabel :: string
  fieldText :: string

definition SetLabel :: "string \<Rightarrow> InputField \<Rightarrow> InputField" where
  "SetLabel l b = b\<lparr>fieldLabel := l\<rparr>"

definition SetText :: "string \<Rightarrow> InputField \<Rightarrow> InputField" where
  "SetText x b = b\<lparr>fieldText := x\<rparr>"

definition GetLabel :: "InputField \<Rightarrow> string" where
  "GetLabel b = fieldLabel b"

definition GetText :: "InputField \<Rightarrow> string" where
  "GetText b = fieldText b"

section \<open>The tab\<close>

datatype tabMode = modeOff | modeLinkSelect

record tabHistory =
  urls :: "string list"
  pos :: int

text \<open>
  A pointer is an address or \<^verbatim>\<open>nil\<close> (\<open>None\<close>). The Pages live in a store, from
  addresses to Pages, because a Page is shared: the cache holds the same pointer as
  the tab. The view and the history of a tab are reached through the tab only, so they
  are kept inside it, \<open>None\<close> for a \<^verbatim>\<open>nil\<close> pointer. The mutex
  \<^verbatim>\<open>reformatMut\<close> is not used by the code modelled here and is left out.
\<close>

type_synonym addr = nat

record tab =
  page :: "addr option"
  view :: "TextView option"
  mode :: tabMode
  history :: "tabHistory option"
  selected :: string
  selectedID :: string
  barLabel :: string
  barText :: string

definition nonnil :: "'a option \<Rightarrow> panic + 'a" where
  "nonnil p = (case p of None \<Rightarrow> Inl NilDereference | Some x \<Rightarrow> Inr x)"

definition deref :: "(addr \<Rightarrow> 'a) \<Rightarrow> addr option \<Rightarrow> panic + 'a" where
  "deref store p = (case p of None \<Rightarrow> Inl NilDereference | Some a \<Rightarrow> Inr (store a))"

text \<open>
  \<^verbatim>\<open>makeNewTab\<close>: the new tab, and the store with the new, empty Page at the
  address \<open>a\<close> that the allocation returns. (The done function it installs on the view
  is \<open>DoneFunc\<close> below.)
\<close>

definition makeNewTab :: "addr \<Rightarrow> (addr \<Rightarrow> Page) \<Rightarrow> tab \<times> (addr \<Rightarrow> Page)" where
  "makeNewTab a store =
     (\<lparr>page = Some a, view = Some NewTextView, mode = modeOff,
       history = Some \<lparr>urls = [], pos = 0\<rparr>,
       selected = [], selectedID = [], barLabel = [], barText = []\<rparr>,
      store(a := zeroPage))"





text \<open>
  \<^verbatim>\<open>hasContent\<close>. (The file of the tab writes the Page's field \<^verbatim>\<open>Url\<close>; the
  struct spells it \<^verbatim>\<open>URL\<close>.)
\<close>

definition hasContent :: "(addr \<Rightarrow> Page) \<Rightarrow> tab \<Rightarrow> bool" where
  "hasContent store t =
     (case page t of
        None \<Rightarrow> False
      | Some a \<Rightarrow>
          if view t = None then False
          else if URL (store a) = [] then False
          else if HasPrefix (URL (store a)) ''about:'' then False
          else if Content (store a) = [] then False
          else True)"

text \<open>\<^verbatim>\<open>saveScroll\<close> writes into the Page, so it returns the store.\<close>

definition saveScroll :: "tab \<Rightarrow> (addr \<Rightarrow> Page) \<Rightarrow> panic + (addr \<Rightarrow> Page)" where
  "saveScroll t store =
     and_then (nonnil (view t)) (\<lambda>v.
     case GetScrollOffset v of
       (row, col) \<Rightarrow>
         and_then (nonnil (page t)) (\<lambda>a.
         Inr (store(a := (store a)\<lparr>Row := row, Column := col\<rparr>))))"

definition applyScroll :: "(addr \<Rightarrow> Page) \<Rightarrow> tab \<Rightarrow> panic + tab" where
  "applyScroll store t =
     and_then (deref store (page t)) (\<lambda>p.
     and_then (nonnil (view t)) (\<lambda>v.
     Inr (t\<lparr>view := Some (ScrollTo (Row p) (Column p) v)\<rparr>)))"

definition saveBottomBar :: "InputField \<Rightarrow> tab \<Rightarrow> tab" where
  "saveBottomBar bottomBar t = t\<lparr>barLabel := GetLabel bottomBar, barText := GetText bottomBar\<rparr>"

definition applyBottomBar :: "tab \<Rightarrow> InputField \<Rightarrow> InputField" where
  "applyBottomBar t bottomBar = SetText (barText t) (SetLabel (barLabel t) bottomBar)"

section \<open>The done function of the view\<close>

text \<open>
  The keys the function tells apart (\<^verbatim>\<open>tcell.Key\<close>); every other key is \<open>KeyOther\<close>.
\<close>

datatype Key = KeyEsc | KeyEnter | KeyTab | KeyBacktab | KeyOther

text \<open>
  The package's variables the function reads and writes: \<^verbatim>\<open>curTab\<close>, the slice
  \<^verbatim>\<open>tabs\<close> of pointers to tabs with the tabs they point to, the Pages, and the
  status bar \<^verbatim>\<open>bottomBar\<close>.
\<close>

record session =
  curTab :: int
  tabs :: "addr option list"
  tabObj :: "addr \<Rightarrow> tab"
  pageObj :: "addr \<Rightarrow> Page"
  bottomBar :: InputField

text \<open>\<^verbatim>\<open>tabs[tab]\<close>, dereferenced: the address of the tab.\<close>

definition tab_at :: "session \<Rightarrow> int \<Rightarrow> panic + addr" where
  "tab_at s i = and_then (go_index (tabs s) i) nonnil"

definition set_tab :: "addr \<Rightarrow> tab \<Rightarrow> session \<Rightarrow> session" where
  "set_tab a t s = s\<lparr>tabObj := (tabObj s)(a := t)\<rparr>"

text \<open>The branch of \<^verbatim>\<open>key == tcell.KeyEsc\<close>: stop highlighting.\<close>

definition on_escape :: "int \<Rightarrow> session \<Rightarrow> panic + session" where
  "on_escape tab s =
     and_then (tab_at s tab) (\<lambda>a.
     let t = tabObj s a in
     and_then (nonnil (view t)) (\<lambda>v.
     and_then (deref (pageObj s) (page t)) (\<lambda>p.
     Inr (set_tab a (t\<lparr>view := Some (Highlight [] v), mode := modeOff\<rparr>)
            (s\<lparr>bottomBar := SetText (URL p) (SetLabel [] (bottomBar s))\<rparr>)))))"

text \<open>
  The last statements of the branch that moves the selection: highlight \<open>index\<close>, show
  the link in the status bar, record it in the tab; \<open>sel\<close> is
  \<^verbatim>\<open>currentSelection[0]\<close>.
\<close>

definition select_link :: "addr \<Rightarrow> tab \<Rightarrow> TextView \<Rightarrow> Page \<Rightarrow> string \<Rightarrow> int \<Rightarrow> session
    \<Rightarrow> panic + session" where
  "select_link a t v p sel index s =
     and_then (go_index (Links p) index) (\<lambda>l.
     Inr (set_tab a
            (t\<lparr>view := Some (ScrollToHighlight (Highlight (Itoa index) v)),
               selected := l, selectedID := sel\<rparr>)
            (s\<lparr>bottomBar := SetText l (SetLabel ''[::b]Link: [::-]'' (bottomBar s))\<rparr>)))"

text \<open>
  The function from \<^verbatim>\<open>currentSelection := ...\<close> to its end. \<open>followLink\<close> is the
  package's function of that name, which is not part of the files modelled: it is
  handed the index of the tab, the two URLs and the state it is called in, and returns
  the state it leaves (or panics).
\<close>

definition on_key ::
    "(int \<Rightarrow> string \<Rightarrow> string \<Rightarrow> session \<Rightarrow> panic + session) \<Rightarrow> Key \<Rightarrow> int \<Rightarrow> session
      \<Rightarrow> panic + session" where
  "on_key followLink key tab s =
     and_then (tab_at s tab) (\<lambda>a.
     let t = tabObj s a in
     and_then (nonnil (view t)) (\<lambda>v.
     and_then (deref (pageObj s) (page t)) (\<lambda>p.
     let currentSelection = GetHighlights v;
         numSelections = len (Links p)
     in
       if key = KeyEnter then
         if 0 < len currentSelection \<and> 0 < len (Links p) then
           and_then (go_index currentSelection 0) (\<lambda>sel.
           let linkN = fst (Atoi sel) in
           and_then (go_index (Links p) linkN) (\<lambda>l.
           followLink tab (URL p) l
             (set_tab a (t\<lparr>mode := modeOff\<rparr>) (s\<lparr>bottomBar := SetLabel [] (bottomBar s)\<rparr>))))
         else
           and_then (go_index (Links p) 0) (\<lambda>l.
           Inr (set_tab a
                  (t\<lparr>view := Some (ScrollToHighlight (Highlight ''0'' v)),
                     selected := l, selectedID := ''0''\<rparr>)
                  (s\<lparr>bottomBar := SetText l (SetLabel ''[::b]Link: [::-]'' (bottomBar s))\<rparr>)))
       else if 0 < len currentSelection then
         and_then (go_index currentSelection 0) (\<lambda>sel.
         let index = fst (Atoi sel) in
         if key = KeyTab then
           and_then (go_rem (go_add index 1) numSelections) (\<lambda>index.
           select_link a t v p sel index s)
         else if key = KeyBacktab then
           and_then (go_rem (go_add (go_sub index 1) numSelections) numSelections) (\<lambda>index.
           select_link a t v p sel index s)
         else Inr s)
       else Inr s)))"

text \<open>
  The whole function. \<^verbatim>\<open>defer tabs[tab].saveBottomBar()\<close> evaluates the pointer
  \<^verbatim>\<open>tabs[tab]\<close> at once and calls the method on it when the function returns,
  whichever \<^verbatim>\<open>return\<close> that is. A panic ends the program: its result has no state.
\<close>

definition deferred_saveBottomBar :: "addr option \<Rightarrow> session \<Rightarrow> panic + session" where
  "deferred_saveBottomBar ptr s =
     and_then (nonnil ptr) (\<lambda>a.
     Inr (set_tab a (saveBottomBar (bottomBar s) (tabObj s a)) s))"

definition DoneFunc ::
    "(int \<Rightarrow> string \<Rightarrow> string \<Rightarrow> session \<Rightarrow> panic + session) \<Rightarrow> Key \<Rightarrow> session
      \<Rightarrow> panic + session" where
  "DoneFunc followLink key s =
     (let tab = curTab s in
      and_then (go_index (tabs s) tab) (\<lambda>ptr.
      and_then (if key = KeyEsc then on_escape tab s else Inr s) (\<lambda>s1.
      and_then (on_key followLink key tab s1) (\<lambda>s2.
      deferred_saveBottomBar ptr s2))))"

section \<open>States used as examples\<close>

text \<open>
  A session of one tab, made by \<^verbatim>\<open>makeNewTab\<close>, that shows a Page with the given
  links and has the given region ids highlighted.
\<close>

definition sessionWith :: "string list \<Rightarrow> string list \<Rightarrow> session" where
  "sessionWith links ids =
     \<lparr>curTab = 0, tabs = [Some 0],
      tabObj = (\<lambda>a. fst (makeNewTab 0 (\<lambda>a. zeroPage))
                  \<lparr>view := Some (NewTextView\<lparr>highlights := ids\<rparr>)\<rparr>),
      pageObj = (\<lambda>a. zeroPage\<lparr>URL := ''gemini://example.org/'', Links := links\<rparr>),
      bottomBar = \<lparr>fieldLabel = [], fieldText = []\<rparr>\<rparr>"

text \<open>
  Two stand-ins for \<^verbatim>\<open>followLink\<close>: one that does nothing, and one that shows in
  the status bar the two URLs it was handed.
\<close>

definition noFollow :: "int \<Rightarrow> string \<Rightarrow> string \<Rightarrow> session \<Rightarrow> panic + session" where
  "noFollow tab prev next s = Inr s"

definition showFollow :: "int \<Rightarrow> string \<Rightarrow> string \<Rightarrow> session \<Rightarrow> panic + session" where
  "showFollow tab prev next s = Inr (s\<lparr>bottomBar := SetText (prev @ next) (bottomBar s)\<rparr>)"



section \<open>Facts about Go integers\<close>

lemma wrap64_id: "is_int64 x \<Longrightarrow> wrap64 x = x"
  by (simp add: wrap64_def is_int64_def minInt_def maxInt_def)

lemma is_int64_I: "- (2 ^ 63) \<le> x \<Longrightarrow> x < 2 ^ 63 \<Longrightarrow> is_int64 x"
  by (simp add: is_int64_def minInt_def maxInt_def)

lemma go_add_exact: "- (2 ^ 63) \<le> a + b \<Longrightarrow> a + b < 2 ^ 63 \<Longrightarrow> go_add a b = a + b"
  by (simp add: go_add_def wrap64_id is_int64_I)

lemma go_sub_exact: "- (2 ^ 63) \<le> a - b \<Longrightarrow> a - b < 2 ^ 63 \<Longrightarrow> go_sub a b = a - b"
  by (simp add: go_sub_def wrap64_id is_int64_I)



lemma smod_nonneg: "0 \<le> k \<Longrightarrow> 0 < l \<Longrightarrow> (k::int) smod l = k mod l"
  by (simp add: signed_modulo_int_def sgn_if)



lemma and_then_Inr: "and_then (Inr x) f = f x"
  by (simp add: and_then_def)

lemma nonnil_Some: "nonnil (Some x) = Inr x"
  by (simp add: nonnil_def)

lemma deref_Some: "deref store (Some a) = Inr (store a)"
  by (simp add: deref_def)

section \<open>Page.Size\<close>

lemma Size_loop_exact:
  "0 \<le> n \<Longrightarrow> n + (\<Sum>l\<leftarrow>ls. int (length l)) < 2 ^ 63 \<Longrightarrow>
   Size_loop ls n = n + (\<Sum>l\<leftarrow>ls. int (length l))"
proof (induction ls arbitrary: n)
  case Nil
  then show ?case by simp
next
  case (Cons l ls)
  have nonneg: "0 \<le> (\<Sum>l\<leftarrow>ls. int (length l))"
    by (rule sum_list_nonneg) auto
  have step: "go_add n (len l) = n + int (length l)"
    using Cons.prems nonneg by (simp add: len_def go_add_exact)
  show ?case
    using Cons.prems nonneg Cons.IH[of "n + int (length l)"] by (simp add: step add.assoc)
qed

text \<open>
  C7. \<^verbatim>\<open>Size()\<close> is the sum of the byte lengths of \<^verbatim>\<open>Raw\<close>, \<^verbatim>\<open>Content\<close>,
  \<^verbatim>\<open>URL\<close>, \<^verbatim>\<open>Selected\<close>, \<^verbatim>\<open>SelectedID\<close> and of every entry of \<^verbatim>\<open>Links\<close>.
  \<open>Size\<close> is a function of the Page alone and returns only a number, which is what
  deterministic and free of side effects mean here. The additions are Go's, on 64-bit
  integers, so the sum is exact for every Page whose total is below \<open>2 ^ 63\<close> bytes.
\<close>

theorem Size_is_byte_length_sum:
  assumes "byte_total p < 2 ^ 63"
  shows "Size p =
     int (length (Raw p)) + int (length (Content p)) + int (length (URL p))
     + int (length (Selected p)) + int (length (SelectedID p))
     + (\<Sum>l\<leftarrow>Links p. int (length l))"
proof -
  let ?links = "\<Sum>l\<leftarrow>Links p. int (length l)"
  let ?a = "int (length (Raw p))" and ?b = "int (length (Content p))"
  let ?c = "int (length (URL p))" and ?d = "int (length (Selected p))"
  let ?e = "int (length (SelectedID p))"
  have nonneg: "0 \<le> ?links"
    by (rule sum_list_nonneg) auto
  have bound: "?a + ?b + ?c + ?d + ?e + ?links < 2 ^ 63"
    using assms by (simp add: byte_total_def)
  have s1: "go_add (len (Raw p)) (len (Content p)) = ?a + ?b"
    using bound nonneg by (simp add: len_def go_add_exact)
  have s2: "go_add (?a + ?b) (len (URL p)) = ?a + ?b + ?c"
    using bound nonneg by (simp add: len_def go_add_exact)
  have s3: "go_add (?a + ?b + ?c) (len (Selected p)) = ?a + ?b + ?c + ?d"
    using bound nonneg by (simp add: len_def go_add_exact)
  have s4: "go_add (?a + ?b + ?c + ?d) (len (SelectedID p)) = ?a + ?b + ?c + ?d + ?e"
    using bound nonneg by (simp add: len_def go_add_exact)
  have "Size p = Size_loop (Links p) (?a + ?b + ?c + ?d + ?e)"
    by (simp add: Size_def s1 s2 s3 s4)
  also have "\<dots> = ?a + ?b + ?c + ?d + ?e + ?links"
    using bound by (intro Size_loop_exact) auto
  finally show ?thesis .
qed

text \<open>
  The Page of the specification's example: \<open>3 + 5 + 1 + 0 + 0 + 1 + 2 = 12\<close>.
\<close>

theorem Size_is_byte_length_sum_witness:
  "Size (zeroPage\<lparr>Raw := ''abc'', Content := ''defgh'', URL := ''u'', Selected := '''',
      SelectedID := '''', Links := [''x'', ''yz'']\<rparr>) = 12"
  using Size_is_byte_length_sum
    [of "zeroPage\<lparr>Raw := ''abc'', Content := ''defgh'', URL := ''u'', Selected := '''',
      SelectedID := '''', Links := [''x'', ''yz'']\<rparr>"]
  by (simp add: byte_total_def zeroPage_def)

section \<open>The history\<close>




section \<open>Paging\<close>






section \<open>hasContent\<close>

lemma HasPrefix_iff: "HasPrefix s p \<longleftrightarrow> (\<exists>r. s = p @ r)"
proof
  assume "HasPrefix s p"
  then have "s = p @ drop (length p) s"
    by (metis HasPrefix_def append_take_drop_id)
  then show "\<exists>r. s = p @ r" ..
next
  assume "\<exists>r. s = p @ r"
  then show "HasPrefix s p"
    by (auto simp: HasPrefix_def)
qed

text \<open>
  C8. \<^verbatim>\<open>hasContent\<close> is false exactly when the tab has no Page or no view, or the
  URL of its Page is empty or starts with \<^verbatim>\<open>about:\<close>, or the content of its Page
  is empty, and true otherwise. So an empty URL or one that starts with \<^verbatim>\<open>about:\<close>
  makes it false whatever the content is.
\<close>

theorem hasContent_false_iff:
  "(hasContent store t = False) =
     (page t = None \<or> view t = None
      \<or> (\<exists>a. page t = Some a
            \<and> (URL (store a) = [] \<or> HasPrefix (URL (store a)) ''about:''
                \<or> Content (store a) = [])))
   \<and> (page t = Some a \<and> (URL (store a) = [] \<or> HasPrefix (URL (store a)) ''about:'')
        \<longrightarrow> hasContent store t = False)"
  by (auto simp: hasContent_def split: option.splits)

text \<open>
  A new tab whose Page has content: with the URL \<^verbatim>\<open>about:newtab\<close> it has no
  content to show, with a \<^verbatim>\<open>gemini:\<close> URL it has.
\<close>

theorem hasContent_false_iff_witness:
  "hasContent (\<lambda>a. zeroPage\<lparr>URL := ''about:newtab'', Content := ''text''\<rparr>)
      (fst (makeNewTab 0 (\<lambda>a. zeroPage))) = False
   \<and> hasContent (\<lambda>a. zeroPage\<lparr>URL := ''gemini://example.org/'', Content := ''text''\<rparr>)
      (fst (makeNewTab 0 (\<lambda>a. zeroPage))) = True"
  using hasContent_false_iff
      [of "\<lambda>a. zeroPage\<lparr>URL := ''about:newtab'', Content := ''text''\<rparr>"
          "fst (makeNewTab 0 (\<lambda>a. zeroPage))" 0]
    hasContent_false_iff
      [of "\<lambda>a. zeroPage\<lparr>URL := ''gemini://example.org/'', Content := ''text''\<rparr>"
          "fst (makeNewTab 0 (\<lambda>a. zeroPage))" 0]
  by (simp add: makeNewTab_def HasPrefix_def)

section \<open>The scroll position\<close>

text \<open>
  C9. A tab \<open>t\<close> with the view \<open>v\<close> shows the Page at the address \<open>a\<close>.
  \<^verbatim>\<open>saveScroll\<close> returns and writes the offset of \<open>v\<close> into that Page, where every
  holder of the address reads it. If nothing has changed by then, \<^verbatim>\<open>applyScroll\<close>
  leaves the tab as it is. Later the tab (\<open>t'\<close>) shows the same Page, whose row and
  column are still the saved ones in the store of that time (\<open>store'\<close>), whatever else
  has changed: \<^verbatim>\<open>applyScroll\<close> returns and sets the offset of the view to the offset
  that was saved.
\<close>

theorem scroll_round_trip:
  assumes v: "view t = Some v" and a: "page t = Some a"
    and later: "page t' = Some a" "view t' = Some v'"
    and kept: "Row (store' a) = lineOffset v" "Column (store' a) = columnOffset v"
  shows "saveScroll t store =
       Inr (store(a := (store a)\<lparr>Row := lineOffset v, Column := columnOffset v\<rparr>))
     \<and> applyScroll (store(a := (store a)\<lparr>Row := lineOffset v, Column := columnOffset v\<rparr>)) t
         = Inr t
     \<and> applyScroll store' t' =
         Inr (t'\<lparr>view := Some (v'\<lparr>lineOffset := lineOffset v, columnOffset := columnOffset v\<rparr>)\<rparr>)"
  using assms
  by (simp add: saveScroll_def applyScroll_def and_then_def nonnil_def deref_def
      GetScrollOffset_def ScrollTo_def)

text \<open>
  A view at row 7, column 2 is saved; the view is then scrolled to the top and the
  selection of the Page changes; applying the scroll brings row 7, column 2 back.
\<close>

theorem scroll_round_trip_witness:
  "saveScroll (fst (makeNewTab 0 (\<lambda>a. zeroPage))\<lparr>view := Some (ScrollTo 7 2 NewTextView)\<rparr>)
       (\<lambda>a. zeroPage)
     = Inr ((\<lambda>a. zeroPage)(0 := zeroPage\<lparr>Row := 7, Column := 2\<rparr>))
   \<and> applyScroll (\<lambda>a. zeroPage\<lparr>Row := 7, Column := 2, Selected := ''x''\<rparr>)
       (fst (makeNewTab 0 (\<lambda>a. zeroPage)))
     = Inr (fst (makeNewTab 0 (\<lambda>a. zeroPage))\<lparr>view := Some (ScrollTo 7 2 NewTextView)\<rparr>)"
  using scroll_round_trip
    [of "fst (makeNewTab 0 (\<lambda>a. zeroPage))\<lparr>view := Some (ScrollTo 7 2 NewTextView)\<rparr>"
        "ScrollTo 7 2 NewTextView" 0 "fst (makeNewTab 0 (\<lambda>a. zeroPage))" NewTextView
        "\<lambda>a. zeroPage\<lparr>Row := 7, Column := 2, Selected := ''x''\<rparr>" "\<lambda>a. zeroPage"]
  by (simp add: makeNewTab_def ScrollTo_def NewTextView_def)

section \<open>Atoi after Itoa\<close>

lemma digits_nth:
  assumes "d < 10"
  shows "is_digit (digits ! d) \<and> digit_val (digits ! d) = d"
proof -
  have "d \<in> {0, 1, 2, 3, 4, 5, 6, 7, 8, 9}"
    using assms by auto
  then show ?thesis
    by (auto simp: digits_def is_digit_def digit_val_def)
qed

lemma ParseUint_loop_digit:
  assumes "d < 10" and "m * 10 + d \<le> maxUint64"
  shows "ParseUint_loop m (digits ! d # cs) = ParseUint_loop (m * 10 + d) cs"
proof -
  have "m < cutoff10"
    using assms by (simp add: cutoff10_def maxUint64_def)
  moreover have "(m * 10 + d) mod 2 ^ 64 = m * 10 + d"
    using assms by (simp add: maxUint64_def)
  ultimately show ?thesis
    using assms digits_nth[of d] by (simp add: Let_def)
qed

lemma formatDecimal_small: "n < 10 \<Longrightarrow> formatDecimal n = [digits ! n]"
  by (simp add: formatDecimal.simps)

lemma formatDecimal_large:
  "\<not> n < 10 \<Longrightarrow> formatDecimal n = formatDecimal (n div 10) @ [digits ! (n mod 10)]"
  by (subst formatDecimal.simps) simp

lemma formatDecimal_not_Nil: "formatDecimal n \<noteq> []"
  by (subst formatDecimal.simps) simp

lemma ParseUint_loop_formatDecimal:
  "m * 10 ^ length (formatDecimal n) + n \<le> maxUint64 \<Longrightarrow>
   ParseUint_loop m (formatDecimal n @ cs) =
   ParseUint_loop (m * 10 ^ length (formatDecimal n) + n) cs"
proof (induction n arbitrary: m cs rule: formatDecimal.induct)
  case (1 n)
  show ?case
  proof (cases "n < 10")
    case True
    then have "ParseUint_loop m (digits ! n # cs) = ParseUint_loop (m * 10 + n) cs"
      using "1.prems" by (intro ParseUint_loop_digit) (simp_all add: formatDecimal_small)
    then show ?thesis
      using True by (simp add: formatDecimal_small del: ParseUint_loop.simps)
  next
    case False
    let ?k = "length (formatDecimal (n div 10))"
    let ?c = "digits ! (n mod 10)"
    have len: "length (formatDecimal n) = Suc ?k"
      using False by (simp add: formatDecimal_large)
    have total: "(m * 10 ^ ?k + n div 10) * 10 + n mod 10 = m * 10 ^ Suc ?k + n"
      by (simp add: algebra_simps)
    have bound: "m * 10 ^ Suc ?k + n \<le> maxUint64"
      using "1.prems" len by simp
    moreover have "m * 10 ^ ?k + n div 10 \<le> (m * 10 ^ ?k + n div 10) * 10 + n mod 10"
      by simp
    ultimately have bound': "m * 10 ^ ?k + n div 10 \<le> maxUint64"
      unfolding total by (rule order_trans[rotated])
    have "ParseUint_loop m (formatDecimal n @ cs) =
          ParseUint_loop m (formatDecimal (n div 10) @ (?c # cs))"
      using False by (simp add: formatDecimal_large del: ParseUint_loop.simps)
    also have "\<dots> = ParseUint_loop (m * 10 ^ ?k + n div 10) (?c # cs)"
      using False bound' by (rule "1.IH")
    also have "\<dots> = ParseUint_loop ((m * 10 ^ ?k + n div 10) * 10 + n mod 10) cs"
      using bound total by (intro ParseUint_loop_digit) simp_all
    finally show ?thesis
      unfolding total len .
  qed
qed

lemma hd_formatDecimal_digit: "is_digit (hd (formatDecimal n))"
proof (induction n rule: formatDecimal.induct)
  case (1 n)
  show ?case
  proof (cases "n < 10")
    case True
    then show ?thesis by (simp add: formatDecimal_small digits_nth)
  next
    case False
    then show ?thesis
      using "1.IH" by (simp add: formatDecimal_large formatDecimal_not_Nil)
  qed
qed

lemma hd_formatDecimal_no_sign:
  "hd (formatDecimal n) \<noteq> CHR ''-''" "hd (formatDecimal n) \<noteq> CHR ''+''"
  using hd_formatDecimal_digit[of n] by (auto simp: is_digit_def)

lemma ParseUint_formatDecimal:
  assumes "n \<le> maxUint64"
  shows "ParseUint (formatDecimal n) = (n, None)"
proof -
  have "ParseUint_loop 0 (formatDecimal n @ []) =
      ParseUint_loop (0 * 10 ^ length (formatDecimal n) + n) []"
    using assms by (intro ParseUint_loop_formatDecimal) simp
  then show ?thesis
    by (simp add: ParseUint_def formatDecimal_not_Nil)
qed

lemma Atoi_Itoa:
  assumes "is_int64 i"
  shows "Atoi (Itoa i) = (i, None)"
proof (cases "i < 0")
  case True
  have "nat (- i) \<le> maxUint64"
    using assms by (simp add: is_int64_def minInt_def maxUint64_def nat_le_iff)
  then have "ParseUint (formatDecimal (nat (- i))) = (nat (- i), None)"
    by (rule ParseUint_formatDecimal)
  moreover have "\<not> 2 ^ 63 < nat (- i)"
  proof -
    have "- i \<le> 2 ^ 63"
      using assms by (simp add: is_int64_def minInt_def)
    then have "nat (- i) \<le> nat (2 ^ 63)"
      by (rule nat_mono)
    then show ?thesis by simp
  qed
  ultimately show ?thesis
    using True by (simp add: Atoi_def ParseInt_def Itoa_def)
next
  case False
  have "nat i \<le> maxUint64"
    using assms by (simp add: is_int64_def maxInt_def maxUint64_def nat_le_iff)
  then have "ParseUint (formatDecimal (nat i)) = (nat i, None)"
    by (rule ParseUint_formatDecimal)
  moreover have "\<not> 2 ^ 63 \<le> nat i"
  proof -
    have "i < 2 ^ 63"
      using assms by (simp add: is_int64_def maxInt_def)
    then have "nat i < nat (2 ^ 63)"
      by (simp add: nat_less_iff)
    then show ?thesis by simp
  qed
  ultimately show ?thesis
    using False by (simp add: Atoi_def ParseInt_def Itoa_def formatDecimal_not_Nil
        hd_formatDecimal_no_sign)
qed


lemma Itoa_not_Nil: "Itoa i \<noteq> []"
  by (simp add: Itoa_def formatDecimal_not_Nil)

lemma Itoa_inject:
  assumes "is_int64 i" and "is_int64 j" and "Itoa i = Itoa j"
  shows "i = j"
proof -
  have "fst (Atoi (Itoa i)) = fst (Atoi (Itoa j))"
    using assms(3) by simp
  then show ?thesis
    unfolding Atoi_Itoa[OF assms(1)] Atoi_Itoa[OF assms(2)] by simp
qed

section \<open>The keys Tab and Backtab\<close>

lemma next_index:
  assumes "0 \<le> i" and "i < n" and "n < 2 ^ 60"
  shows "and_then (go_rem (go_add i 1) n) f = f ((i + 1) mod n)"
proof -
  have "go_add i 1 = i + 1"
    using assms by (intro go_add_exact) auto
  moreover have "wrap64 ((i + 1) mod n) = (i + 1) mod n"
    using assms by (intro wrap64_id is_int64_I)
      (auto intro: order_trans[OF _ pos_mod_sign] less_trans[OF pos_mod_bound])
  ultimately show ?thesis
    using assms by (simp add: go_rem_def smod_nonneg and_then_Inr)
qed

lemma previous_index:
  assumes "0 \<le> i" and "i < n" and "n < 2 ^ 60"
  shows "and_then (go_rem (go_add (go_sub i 1) n) n) f = f ((i - 1 + n) mod n)"
proof -
  have "go_sub i 1 = i - 1"
    using assms by (intro go_sub_exact) auto
  moreover have "go_add (i - 1) n = i - 1 + n"
    using assms by (intro go_add_exact) auto
  moreover have "wrap64 ((i - 1 + n) mod n) = (i - 1 + n) mod n"
    using assms by (intro wrap64_id is_int64_I)
      (auto intro: order_trans[OF _ pos_mod_sign] less_trans[OF pos_mod_bound])
  ultimately show ?thesis
    using assms by (simp add: go_rem_def smod_nonneg and_then_Inr)
qed

text \<open>
  The whole state after Tab or Backtab, when the link \<open>i\<close> is the one highlighted:
  \<open>j\<close> is the index the key moves to.
\<close>

lemma DoneFunc_select:
  assumes cur: "go_index (tabs s) (curTab s) = Inr (Some a)"
    and v: "view (tabObj s a) = Some v"
    and pa: "page (tabObj s a) = Some pa"
    and sel: "GetHighlights v = [Itoa i]"
    and i: "0 \<le> i" "i < len (Links (pageObj s pa))"
    and fits: "len (Links (pageObj s pa)) < 2 ^ 60"
    and key: "key = KeyTab \<and> j = (i + 1) mod len (Links (pageObj s pa))
        \<or> key = KeyBacktab
          \<and> j = (i - 1 + len (Links (pageObj s pa))) mod len (Links (pageObj s pa))"
  shows "DoneFunc followLink key s =
    Inr (s\<lparr>tabObj := (tabObj s)(a := (tabObj s a)
            \<lparr>view := Some (v\<lparr>highlights := [Itoa j], scrollToHighlights := True\<rparr>),
             selected := Links (pageObj s pa) ! nat j,
             selectedID := Itoa i,
             barLabel := ''[::b]Link: [::-]'',
             barText := Links (pageObj s pa) ! nat j\<rparr>),
          bottomBar := (bottomBar s)\<lparr>fieldLabel := ''[::b]Link: [::-]'',
             fieldText := Links (pageObj s pa) ! nat j\<rparr>\<rparr>)"
proof -
  let ?n = "len (Links (pageObj s pa))"
  have n: "0 < ?n" using i by simp
  have j: "0 \<le> j" "j < ?n"
    using key n by auto
  have index: "go_index (Links (pageObj s pa)) j = Inr (Links (pageObj s pa) ! nat j)"
    using j by (simp add: go_index_def)
  have atoi: "Atoi (Itoa i) = (i, None)"
    using i fits by (intro Atoi_Itoa is_int64_I) auto
  have hl: "0 < len [Itoa i]" "go_index [Itoa i] 0 = Inr (Itoa i)"
    by (simp_all add: len_def go_index_def)
  have select: "select_link a (tabObj s a) v (pageObj s pa) (Itoa i) j s =
      Inr (set_tab a ((tabObj s a)
            \<lparr>view := Some (ScrollToHighlight (Highlight (Itoa j) v)),
             selected := Links (pageObj s pa) ! nat j, selectedID := Itoa i\<rparr>)
          (s\<lparr>bottomBar := SetText (Links (pageObj s pa) ! nat j)
              (SetLabel ''[::b]Link: [::-]'' (bottomBar s))\<rparr>))"
    by (simp add: select_link_def index and_then_Inr)
  have "on_key followLink key (curTab s) s =
      select_link a (tabObj s a) v (pageObj s pa) (Itoa i) j s"
    using key
    by (auto simp: on_key_def tab_at_def cur v pa sel and_then_Inr nonnil_Some deref_Some hl atoi
        next_index[OF i fits] previous_index[OF i fits] Let_def)
  then show ?thesis
    using key
    by (auto simp: DoneFunc_def cur and_then_Inr select deferred_saveBottomBar_def nonnil_Some
        set_tab_def saveBottomBar_def GetLabel_def GetText_def SetText_def SetLabel_def
        ScrollToHighlight_def Highlight_def Itoa_not_Nil Let_def)
qed

text \<open>
  C4. The current tab shows a Page \<open>p\<close> with \<open>n\<close> links, and the region of link \<open>i\<close>
  is the one highlighted. The key Tab then highlights the region of link
  \<open>(i + 1) mod n\<close>, asks the view to scroll it into sight, and puts that link's URL into
  the status bar under the label for links; Backtab does the same for link
  \<open>(i - 1 + n) mod n\<close>. Whatever \<^verbatim>\<open>followLink\<close> is, it is not called. (A slice of
  strings has fewer than \<open>2 ^ 60\<close> elements: each takes 16 bytes.)
\<close>

theorem Tab_Backtab_cycle:
  assumes cur: "go_index (tabs s) (curTab s) = Inr (Some a)"
    and v: "view (tabObj s a) = Some v"
    and pa: "page (tabObj s a) = Some pa"
    and p: "p = pageObj s pa" and n: "n = len (Links p)"
    and sel: "GetHighlights v = [Itoa i]"
    and i: "0 \<le> i" "i < n"
    and fits: "n < 2 ^ 60"
  shows "(\<exists>s' v'. DoneFunc followLink KeyTab s = Inr s'
          \<and> view (tabObj s' a) = Some v' \<and> GetHighlights v' = [Itoa ((i + 1) mod n)]
          \<and> scrollToHighlights v'
          \<and> GetLabel (bottomBar s') = ''[::b]Link: [::-]''
          \<and> GetText (bottomBar s') = Links p ! nat ((i + 1) mod n))
     \<and> (\<exists>s' v'. DoneFunc followLink KeyBacktab s = Inr s'
          \<and> view (tabObj s' a) = Some v' \<and> GetHighlights v' = [Itoa ((i - 1 + n) mod n)]
          \<and> scrollToHighlights v'
          \<and> GetLabel (bottomBar s') = ''[::b]Link: [::-]''
          \<and> GetText (bottomBar s') = Links p ! nat ((i - 1 + n) mod n))"
proof -
  note facts = cur v pa sel i[unfolded n p] fits[unfolded n p]
  have forward: "DoneFunc followLink KeyTab s = Inr (s\<lparr>tabObj := (tabObj s)(a := (tabObj s a)
            \<lparr>view := Some (v\<lparr>highlights := [Itoa ((i + 1) mod n)], scrollToHighlights := True\<rparr>),
             selected := Links p ! nat ((i + 1) mod n),
             selectedID := Itoa i,
             barLabel := ''[::b]Link: [::-]'',
             barText := Links p ! nat ((i + 1) mod n)\<rparr>),
          bottomBar := (bottomBar s)\<lparr>fieldLabel := ''[::b]Link: [::-]'',
             fieldText := Links p ! nat ((i + 1) mod n)\<rparr>\<rparr>)"
    unfolding n p by (rule DoneFunc_select[OF facts]) simp
  have backward: "DoneFunc followLink KeyBacktab s = Inr (s\<lparr>tabObj := (tabObj s)(a := (tabObj s a)
            \<lparr>view := Some (v\<lparr>highlights := [Itoa ((i - 1 + n) mod n)], scrollToHighlights := True\<rparr>),
             selected := Links p ! nat ((i - 1 + n) mod n),
             selectedID := Itoa i,
             barLabel := ''[::b]Link: [::-]'',
             barText := Links p ! nat ((i - 1 + n) mod n)\<rparr>),
          bottomBar := (bottomBar s)\<lparr>fieldLabel := ''[::b]Link: [::-]'',
             fieldText := Links p ! nat ((i - 1 + n) mod n)\<rparr>\<rparr>)"
    unfolding n p by (rule DoneFunc_select[OF facts]) simp
  show ?thesis
    unfolding forward backward by (simp add: GetHighlights_def GetText_def GetLabel_def)
qed

text \<open>
  Three links, the first one highlighted: Tab goes to the second, Backtab wraps around
  to the third.
\<close>

theorem Tab_Backtab_cycle_witness:
  "(\<exists>s' v'. DoneFunc noFollow KeyTab (sessionWith [''a'', ''b'', ''c''] [''0'']) = Inr s'
      \<and> view (tabObj s' 0) = Some v' \<and> GetHighlights v' = [''1'']
      \<and> scrollToHighlights v'
      \<and> GetLabel (bottomBar s') = ''[::b]Link: [::-]''
      \<and> GetText (bottomBar s') = ''b'')
   \<and> (\<exists>s' v'. DoneFunc noFollow KeyBacktab (sessionWith [''a'', ''b'', ''c''] [''0'']) = Inr s'
      \<and> view (tabObj s' 0) = Some v' \<and> GetHighlights v' = [''2'']
      \<and> scrollToHighlights v'
      \<and> GetLabel (bottomBar s') = ''[::b]Link: [::-]''
      \<and> GetText (bottomBar s') = ''c'')"
  using Tab_Backtab_cycle [of "sessionWith [''a'', ''b'', ''c''] [''0'']" 0
      "NewTextView\<lparr>highlights := [''0'']\<rparr>" 0 _ 3 0 noFollow, OF _ _ _ refl]
  by (simp add: sessionWith_def makeNewTab_def go_index_def len_def GetHighlights_def Itoa_def
      formatDecimal.simps digits_def)

text \<open>
  C10. In the same situation, after Tab or Backtab the field \<^verbatim>\<open>selected\<close> of the tab
  is the URL of the link \<open>j\<close> the highlight moved to, and \<^verbatim>\<open>selectedID\<close> is the id of
  the link \<open>i\<close> it came from. With more than one link \<open>j\<close> is not \<open>i\<close>, and the id
  stored is not the id of link \<open>j\<close>.
\<close>

theorem selected_and_selectedID_differ:
  assumes cur: "go_index (tabs s) (curTab s) = Inr (Some a)"
    and v: "view (tabObj s a) = Some v"
    and pa: "page (tabObj s a) = Some pa"
    and p: "p = pageObj s pa" and n: "n = len (Links p)"
    and sel: "GetHighlights v = [Itoa i]"
    and i: "0 \<le> i" "i < n"
    and fits: "n < 2 ^ 60"
    and key: "key = KeyTab \<and> j = (i + 1) mod n \<or> key = KeyBacktab \<and> j = (i - 1 + n) mod n"
  shows "\<exists>s'. DoneFunc followLink key s = Inr s'
      \<and> selected (tabObj s' a) = Links p ! nat j
      \<and> selectedID (tabObj s' a) = Itoa i
      \<and> (1 < n \<longrightarrow> j \<noteq> i \<and> selectedID (tabObj s' a) \<noteq> Itoa j)"
proof -
  have j: "0 \<le> j" "j < n"
    using key i by auto
  have differ: "j \<noteq> i" if "1 < n"
  proof (cases "key = KeyTab")
    case True
    then have "j = (i + 1) mod n" using key by auto
    then show ?thesis
      using i that by (cases "i + 1 = n") auto
  next
    case False
    then have "j = (i - 1 + n) mod n" using key by auto
    then show ?thesis
      using i that by (cases "i = 0") auto
  qed
  have range: "is_int64 i" "is_int64 j"
    using i j fits by (auto intro!: is_int64_I)
  have ids: "Itoa i \<noteq> Itoa j" if "1 < n"
    using differ[OF that] Itoa_inject[OF range] by blast
  have "DoneFunc followLink key s = Inr (s\<lparr>tabObj := (tabObj s)(a := (tabObj s a)
            \<lparr>view := Some (v\<lparr>highlights := [Itoa j], scrollToHighlights := True\<rparr>),
             selected := Links p ! nat j,
             selectedID := Itoa i,
             barLabel := ''[::b]Link: [::-]'',
             barText := Links p ! nat j\<rparr>),
          bottomBar := (bottomBar s)\<lparr>fieldLabel := ''[::b]Link: [::-]'',
             fieldText := Links p ! nat j\<rparr>\<rparr>)"
    unfolding p
    by (rule DoneFunc_select[OF cur v pa sel i[unfolded n p] fits[unfolded n p] key[unfolded n p]])
  then show ?thesis
    using differ ids by simp
qed

text \<open>
  Three links, the first one highlighted: after Tab, \<^verbatim>\<open>selected\<close> is the second
  link and \<^verbatim>\<open>selectedID\<close> is still the id of the first.
\<close>

theorem selected_and_selectedID_differ_witness:
  "(\<exists>s'. DoneFunc noFollow KeyTab (sessionWith [''a'', ''b'', ''c''] [''0'']) = Inr s'
      \<and> selected (tabObj s' 0) = ''b''
      \<and> selectedID (tabObj s' 0) = ''0''
      \<and> selectedID (tabObj s' 0) \<noteq> ''1'')"
  using selected_and_selectedID_differ [of "sessionWith [''a'', ''b'', ''c''] [''0'']" 0
      "NewTextView\<lparr>highlights := [''0'']\<rparr>" 0 _ 3 0 KeyTab 1 noFollow, OF _ _ _ refl]
  by (simp add: sessionWith_def makeNewTab_def go_index_def len_def GetHighlights_def Itoa_def
      formatDecimal.simps digits_def)

section \<open>The key Enter\<close>

text \<open>
  Enter with one region highlighted, whose id \<^verbatim>\<open>Atoi\<close> turns into an index \<open>k\<close> of
  the links: the only thing the function does after clearing the label and setting the
  mode is the call of \<^verbatim>\<open>followLink\<close>, and the deferred call when that returns.
\<close>

lemma DoneFunc_follow:
  assumes cur: "go_index (tabs s) (curTab s) = Inr (Some a)"
    and v: "view (tabObj s a) = Some v"
    and pa: "page (tabObj s a) = Some pa"
    and sel: "GetHighlights v = [sel]"
    and k: "fst (Atoi sel) = k" "0 \<le> k" "k < len (Links (pageObj s pa))"
  shows "DoneFunc followLink KeyEnter s =
     and_then
       (followLink (curTab s) (URL (pageObj s pa)) (Links (pageObj s pa) ! nat k)
          (s\<lparr>bottomBar := (bottomBar s)\<lparr>fieldLabel := []\<rparr>,
             tabObj := (tabObj s)(a := (tabObj s a)\<lparr>mode := modeOff\<rparr>)\<rparr>))
       (deferred_saveBottomBar (Some a))"
proof -
  have index: "go_index (Links (pageObj s pa)) k = Inr (Links (pageObj s pa) ! nat k)"
    using k by (simp add: go_index_def)
  have hl: "0 < len [sel]" "go_index [sel] 0 = Inr sel"
    by (simp_all add: len_def go_index_def)
  have n: "0 < len (Links (pageObj s pa))"
    using k by simp
  show ?thesis
    by (simp add: DoneFunc_def on_key_def tab_at_def cur v pa sel and_then_Inr nonnil_Some
        deref_Some hl n k(1) index set_tab_def SetLabel_def Let_def)
qed

text \<open>
  C5. The current tab shows a Page \<open>p\<close> and the region of its link \<open>i\<close> is the one
  highlighted. Whatever \<^verbatim>\<open>followLink\<close> is, Enter calls it once, with the index of
  the tab, the URL of the Page and the link \<open>i\<close>, in the state \<open>s0\<close>: the state before
  the key with the label of the status bar cleared and the mode of the tab set to
  \<^verbatim>\<open>modeOff\<close>. What the function returns is what that call returns, followed by
  the deferred \<^verbatim>\<open>saveBottomBar\<close>.
\<close>

theorem Enter_follows_selected_link:
  assumes cur: "go_index (tabs s) (curTab s) = Inr (Some a)"
    and v: "view (tabObj s a) = Some v"
    and pa: "page (tabObj s a) = Some pa"
    and p: "p = pageObj s pa"
    and sel: "GetHighlights v = [Itoa i]"
    and i: "0 \<le> i" "i < len (Links p)"
    and fits: "len (Links p) \<le> maxInt"
    and s0: "s0 = s\<lparr>bottomBar := (bottomBar s)\<lparr>fieldLabel := []\<rparr>,
                    tabObj := (tabObj s)(a := (tabObj s a)\<lparr>mode := modeOff\<rparr>)\<rparr>"
  shows "DoneFunc followLink KeyEnter s =
       and_then (followLink (curTab s) (URL p) (Links p ! nat i) s0)
         (deferred_saveBottomBar (Some a))
     \<and> mode (tabObj s0 a) = modeOff"
proof -
  have "Atoi (Itoa i) = (i, None)"
    using i fits by (intro Atoi_Itoa is_int64_I) (auto simp: maxInt_def)
  then have "fst (Atoi (Itoa i)) = i" by simp
  then show ?thesis
    using DoneFunc_follow[OF cur v pa sel _ i(1)] i(2) unfolding p s0 by simp
qed

text \<open>
  Three links, the second one highlighted, and a \<^verbatim>\<open>followLink\<close> that shows what it
  was handed: the status bar ends with the URL of the Page followed by the second link,
  and the tab in the mode \<^verbatim>\<open>modeOff\<close>.
\<close>

theorem Enter_follows_selected_link_witness:
  "DoneFunc showFollow KeyEnter (sessionWith [''a'', ''b'', ''c''] [''1'']) =
     Inr ((sessionWith [''a'', ''b'', ''c''] [''1''])
       \<lparr>tabObj := (tabObj (sessionWith [''a'', ''b'', ''c''] [''1'']))
           (0 := (tabObj (sessionWith [''a'', ''b'', ''c''] [''1'']) 0)
              \<lparr>mode := modeOff, barLabel := [], barText := ''gemini://example.org/b''\<rparr>),
        bottomBar := \<lparr>fieldLabel = [], fieldText = ''gemini://example.org/b''\<rparr>\<rparr>)"
  using Enter_follows_selected_link [of "sessionWith [''a'', ''b'', ''c''] [''1'']" 0
      "NewTextView\<lparr>highlights := [''1'']\<rparr>" 0 _ 1 _ showFollow, OF _ _ _ refl _ _ _ _ refl]
  by (simp add: sessionWith_def makeNewTab_def go_index_def len_def GetHighlights_def Itoa_def
      formatDecimal.simps digits_def maxInt_def showFollow_def and_then_def
      deferred_saveBottomBar_def nonnil_def set_tab_def saveBottomBar_def SetText_def GetText_def
      GetLabel_def)




text \<open>
  C2. The code does not do what the specification says here: Enter on a Page without
  links, with nothing highlighted and the tab in the mode \<^verbatim>\<open>modeOff\<close>, reaches
  \<^verbatim>\<open>tabs[tab].page.Links[0]\<close> and panics, whatever \<^verbatim>\<open>followLink\<close> is.
\<close>

theorem Enter_without_links_panics:
  "DoneFunc followLink KeyEnter (sessionWith [] []) = Inl IndexOutOfRange"
  by (simp add: DoneFunc_def on_key_def tab_at_def sessionWith_def makeNewTab_def
      go_index_def len_def GetHighlights_def and_then_def nonnil_def deref_def NewTextView_def
      Let_def)

text \<open>The same for every state whose current tab shows a Page without links.\<close>

lemma Enter_no_links_panics:
  assumes cur: "go_index (tabs s) (curTab s) = Inr (Some a)"
    and v: "view (tabObj s a) = Some v"
    and pa: "page (tabObj s a) = Some pa"
    and links: "Links (pageObj s pa) = []"
  shows "DoneFunc followLink KeyEnter s = Inl IndexOutOfRange"
  using cur
  by (simp add: DoneFunc_def on_key_def tab_at_def v pa links and_then_def nonnil_def
      deref_def go_index_def len_def Let_def split: if_splits)

end
